theory Spec2Isabelle
  imports Complex_Main
begin

section \<open>Python strings\<close>

text \<open>
  A Python \<open>str\<close> is modelled as a \<open>string\<close>: the list of its code points, each below 256.
  The functions of this section are the \<open>str\<close> methods that \<open>exact_outline_post.py\<close> calls.
\<close>

text \<open>\<open>str.isspace\<close> on one character: the whitespace that \<open>strip()\<close> and \<open>split()\<close> remove.\<close>

definition is_space :: "char \<Rightarrow> bool" where
  "is_space c = (c \<in> set [CHR 0x09, CHR 0x0A, CHR 0x0B, CHR 0x0C, CHR 0x0D,
                            CHR 0x1C, CHR 0x1D, CHR 0x1E, CHR 0x1F, CHR 0x20,
                            CHR 0x85, CHR 0xA0])"

text \<open>\<open>s.strip()\<close>\<close>

definition strip :: "string \<Rightarrow> string" where
  "strip s = rev (dropWhile is_space (rev (dropWhile is_space s)))"

text \<open>\<open>s.startswith(p)\<close>\<close>

fun startswith :: "string \<Rightarrow> string \<Rightarrow> bool" where
  "startswith s [] = True"
| "startswith [] (p # ps) = False"
| "startswith (c # cs) (p # ps) = (c = p \<and> startswith cs ps)"

text \<open>\<open>sub in s\<close>\<close>

fun contains :: "string \<Rightarrow> string \<Rightarrow> bool" where
  "contains sub [] = startswith [] sub"
| "contains sub (c # cs) = (startswith (c # cs) sub \<or> contains sub cs)"

text \<open>\<open>s.find(sub)\<close>: the index of the first occurrence, \<open>-1\<close> when there is none.\<close>

fun find_str :: "string \<Rightarrow> string \<Rightarrow> int" where
  "find_str [] sub = (if startswith [] sub then 0 else -1)"
| "find_str (c # cs) sub =
     (if startswith (c # cs) sub then 0
      else (let r = find_str cs sub in if r < 0 then -1 else r + 1))"

text \<open>\<open>s[a:b]\<close> for indices \<open>0 \<le> a\<close>, \<open>0 \<le> b\<close>: empty when \<open>b \<le> a\<close>.\<close>

definition slice :: "string \<Rightarrow> nat \<Rightarrow> nat \<Rightarrow> string" where
  "slice s a b = take (b - a) (drop a s)"

text \<open>
  \<open>s.lower()\<close> on one character below 256: the letters \<open>A\<close> to \<open>Z\<close> and the capital
  letters from \<open>0xC0\<close> to \<open>0xDE\<close>, without the sign \<open>0xD7\<close>, move up by 32.
\<close>

definition lower_char :: "char \<Rightarrow> char" where
  "lower_char c =
     (let n = (of_char c :: nat)
      in if (65 \<le> n \<and> n \<le> 90) \<or> (192 \<le> n \<and> n \<le> 222 \<and> n \<noteq> 215)
         then char_of (n + 32) else c)"

definition lower :: "string \<Rightarrow> string" where
  "lower s = map lower_char s"

text \<open>
  \<open>s.split()\<close>: the maximal runs of non-whitespace characters, in order. The first
  argument is the run being read, reversed.
\<close>

fun split_ws_aux :: "string \<Rightarrow> string \<Rightarrow> string list" where
  "split_ws_aux cur [] = (if cur = [] then [] else [rev cur])"
| "split_ws_aux cur (c # cs) =
     (if is_space c
      then (if cur = [] then split_ws_aux [] cs else rev cur # split_ws_aux [] cs)
      else split_ws_aux (c # cur) cs)"

definition split_ws :: "string \<Rightarrow> string list" where
  "split_ws s = split_ws_aux [] s"

text \<open>
  \<open>s.split(sep)\<close> for a non-empty separator: the pieces between the non-overlapping
  occurrences of \<open>sep\<close>, read from the left. The second argument is the piece being read,
  reversed.
\<close>

function split_sep_aux :: "string \<Rightarrow> string \<Rightarrow> string \<Rightarrow> string list" where
  "split_sep_aux sep cur [] = [rev cur]"
| "split_sep_aux sep cur (c # cs) =
     (if sep \<noteq> [] \<and> startswith (c # cs) sep
      then rev cur # split_sep_aux sep [] (drop (length sep) (c # cs))
      else split_sep_aux sep (c # cur) cs)"
  by pat_completeness auto
termination
  by (relation "measure (\<lambda>(sep, cur, s). length s)") auto

definition split_sep :: "string \<Rightarrow> string \<Rightarrow> string list" where
  "split_sep s sep = split_sep_aux sep [] s"

text \<open>\<open>xs[i]\<close> for \<open>0 \<le> i\<close>: \<open>None\<close> stands for the \<open>IndexError\<close>.\<close>

definition index_opt :: "'a list \<Rightarrow> nat \<Rightarrow> 'a option" where
  "index_opt xs i = (if i < length xs then Some (xs ! i) else None)"

section \<open>The runtime's number functions\<close>

text \<open>
  The type \<open>'f\<close> stands for Python's \<open>float\<close>. The builtins \<open>int(s)\<close>, \<open>float(s)\<close>,
  \<open>round(x, n)\<close>, float addition and division, the conversion of a length to a float
  and the text that an f-string prints for a float are parameters of the model: every
  theorem below holds for all of them. \<open>None\<close> stands for the \<open>ValueError\<close> of a parser.
\<close>

record 'f py_env =
  py_int :: "string \<Rightarrow> int option"
  py_float :: "string \<Rightarrow> 'f option"
  py_round :: "'f \<Rightarrow> nat \<Rightarrow> 'f"
  py_zero :: "'f"
  py_add :: "'f \<Rightarrow> 'f \<Rightarrow> 'f"
  py_div :: "'f \<Rightarrow> nat \<Rightarrow> 'f"
  py_repr :: "'f \<Rightarrow> string"

section \<open>Coordinates of a motion line\<close>

text \<open>The body of the loop of \<open>extract_xy\<close>, for one whitespace-delimited field.\<close>

definition extract_part :: "'f py_env \<Rightarrow> 'f option \<times> 'f option \<Rightarrow> string \<Rightarrow> 'f option \<times> 'f option" where
  "extract_part env xy part =
     (let x = fst xy; y = snd xy;
          x' = (if startswith part ''X''
                then (case py_float env (drop 1 part) of Some v \<Rightarrow> Some v | None \<Rightarrow> x)
                else x);
          y' = (if startswith part ''Y''
                then (case py_float env (drop 1 part) of Some v \<Rightarrow> Some v | None \<Rightarrow> y)
                else y)
      in (x', y'))"

definition extract_xy :: "'f py_env \<Rightarrow> string \<Rightarrow> 'f option \<times> 'f option" where
  "extract_xy env line = foldl (extract_part env) (None, None) (split_ws line)"

text \<open>The values that the fields of one axis parse to, in the order of the fields.\<close>

definition axis_values :: "'f py_env \<Rightarrow> string \<Rightarrow> string list \<Rightarrow> 'f list" where
  "axis_values env axis parts =
     List.map_filter (\<lambda>part. if startswith part axis then py_float env (drop 1 part) else None) parts"

definition last_option :: "'a list \<Rightarrow> 'a option" where
  "last_option xs = (if xs = [] then None else Some (last xs))"

section \<open>The geometry library\<close>

text \<open>
  The geometries of \<open>shapely\<close> as far as the program observes them: a \<open>Polygon\<close> with the
  coordinates of its exterior ring (the closing vertex repeated, as \<open>exterior.coords\<close>
  stores it; the empty list is the empty polygon), a \<open>MultiPolygon\<close> with the exterior
  rings of its members, and every other geometry with its \<open>geom_type\<close> and \<open>is_empty\<close>.
\<close>

datatype 'f geom =
    Polygon "('f \<times> 'f) list"
  | MultiPolygon "('f \<times> 'f) list list"
  | OtherGeom string bool

datatype error = LibraryError | AttributeError | ValueError | ZeroDivisionError

text \<open>
  The calls into \<open>shapely\<close> and \<open>alphashape\<close> are parameters of the model:
  \<open>MultiPoint(points).convex_hull\<close>, \<open>alphashape.alphashape(points, alpha)\<close>,
  \<open>poly.simplify(tolerance, preserve_topology=True)\<close> and a polygon's \<open>area\<close>.
  \<open>Inl\<close> is an exception raised by the call. A tolerance is the decimal number
  that the source computes with, \<open>0.1 + 0.5 k\<close>; the library receives the float next
  to it. The comparison with 10 is the same on both, since the tolerances nearest to 10
  are 9.6 and 10.1.
\<close>

record 'f geom_lib =
  convex_hull :: "('f \<times> 'f) list \<Rightarrow> error + 'f geom"
  alphashape :: "('f \<times> 'f) list \<Rightarrow> rat \<Rightarrow> error + 'f geom"
  simplify :: "'f geom \<Rightarrow> rat \<Rightarrow> error + 'f geom"
  area :: "('f \<times> 'f) list \<Rightarrow> rat"

text \<open>\<open>hull.is_empty\<close>\<close>

fun is_empty :: "'f geom \<Rightarrow> bool" where
  "is_empty (Polygon cs) = (cs = [])"
| "is_empty (MultiPolygon gs) = list_all (\<lambda>g. g = []) gs"
| "is_empty (OtherGeom t e) = e"

text \<open>\<open>isinstance(poly, Polygon)\<close>\<close>

fun is_Polygon :: "'f geom \<Rightarrow> bool" where
  "is_Polygon (Polygon cs) = True"
| "is_Polygon g = False"

text \<open>\<open>list(g.exterior.coords)\<close>: only a \<open>Polygon\<close> has an exterior.\<close>

fun exterior_coords :: "'f geom \<Rightarrow> error + ('f \<times> 'f) list" where
  "exterior_coords (Polygon cs) = Inr cs"
| "exterior_coords g = Inl AttributeError"

text \<open>\<open>max(xs, key=key)\<close>: the first element with the greatest key; \<open>None\<close> on an empty list.\<close>

fun max_by :: "('a \<Rightarrow> rat) \<Rightarrow> 'a list \<Rightarrow> 'a option" where
  "max_by key [] = None"
| "max_by key (x # xs) = Some (foldl (\<lambda>best y. if key best < key y then y else best) x xs)"

section \<open>Hull Builder\<close>

text \<open>The body of the \<open>try\<close> of \<open>concave_hull\<close>.\<close>

definition concave_hull_try :: "'f geom_lib \<Rightarrow> ('f \<times> 'f) list \<Rightarrow> rat \<Rightarrow> error + 'f geom" where
  "concave_hull_try lib points alpha =
     (case alphashape lib points alpha of
        Inl e \<Rightarrow> Inl e
      | Inr (Polygon cs) \<Rightarrow> Inr (Polygon cs)
      | Inr (MultiPolygon gs) \<Rightarrow>
          (case max_by (area lib) gs of None \<Rightarrow> Inl ValueError | Some g \<Rightarrow> Inr (Polygon g))
      | Inr (OtherGeom t e) \<Rightarrow> convex_hull lib points)"

definition concave_hull :: "'f geom_lib \<Rightarrow> ('f \<times> 'f) list \<Rightarrow> rat \<Rightarrow> error + 'f geom" where
  "concave_hull lib points alpha =
     (if length points < 4 then convex_hull lib points
      else (case concave_hull_try lib points alpha of
              Inr h \<Rightarrow> Inr h
            | Inl e \<Rightarrow> convex_hull lib points))"

section \<open>Polygon Simplifier\<close>

text \<open>
  The \<open>while\<close> loop of \<open>simplify_polygon\<close>, entered with the current tolerance and the
  current result. It returns the result together with the tolerance it stopped at.
\<close>

function simplify_loop ::
  "'f geom_lib \<Rightarrow> 'f geom \<Rightarrow> nat \<Rightarrow> rat \<Rightarrow> 'f geom \<Rightarrow> error + ('f geom \<times> rat)" where
  "simplify_loop lib poly max_points tolerance simplified =
     (case exterior_coords simplified of
        Inl e \<Rightarrow> Inl e
      | Inr cs \<Rightarrow>
          if max_points < length cs \<and> tolerance < 10
          then (case simplify lib poly (tolerance + 1 / 2) of
                  Inl e \<Rightarrow> Inl e
                | Inr simplified' \<Rightarrow>
                    simplify_loop lib poly max_points (tolerance + 1 / 2) simplified')
          else Inr (simplified, tolerance))"
  by pat_completeness auto
termination
proof (relation "measure (\<lambda>(lib, poly, max_points, tolerance, simplified).
                            nat \<lceil>(10 - tolerance) * 2\<rceil>)", goal_cases)
  case 1
  show ?case by simp
next
  case (2 lib poly max_points tolerance simplified cs simplified')
  then have lt: "tolerance < 10" by simp
  have eq: "(10 - (tolerance + 1 / 2)) * 2 = (10 - tolerance) * 2 - 1"
    by (simp add: algebra_simps)
  have pos: "0 < \<lceil>(10 - tolerance) * 2\<rceil>" using lt by simp
  have "\<lceil>(10 - (tolerance + 1 / 2)) * 2\<rceil> = \<lceil>(10 - tolerance) * 2\<rceil> - 1"
    unfolding eq by (rule ceiling_diff_one)
  then show ?case using pos by simp
qed

definition simplify_polygon_trace ::
  "'f geom_lib \<Rightarrow> 'f geom \<Rightarrow> nat \<Rightarrow> error + ('f geom \<times> rat)" where
  "simplify_polygon_trace lib poly max_points =
     (if \<not> is_Polygon poly then Inr (poly, 1 / 10)
      else (case simplify lib poly (1 / 10) of
              Inl e \<Rightarrow> Inl e
            | Inr simplified \<Rightarrow> simplify_loop lib poly max_points (1 / 10) simplified))"

definition simplify_polygon :: "'f geom_lib \<Rightarrow> 'f geom \<Rightarrow> nat \<Rightarrow> error + 'f geom" where
  "simplify_polygon lib poly max_points = map_sum id fst (simplify_polygon_trace lib poly max_points)"

section \<open>Stream Scanner\<close>

text \<open>
  One entry of the dictionary \<open>objects\<close>. The set of points is a list without
  duplicates, in the order of first insertion; the order in which Python lists a set is
  not specified, and the library functions that receive the list are arbitrary.
  \<open>center\<close> is set to \<open>None\<close> at creation and not written again.
\<close>

record 'f obj_data =
  obj_name :: string
  obj_points :: "('f \<times> 'f) list"
  obj_center :: "('f \<times> 'f) option"

text \<open>
  The local variables of \<open>main\<close> that the scan of the lines updates. The dictionary
  \<open>objects\<close> is an association list in insertion order, which is the order in which
  Python iterates over it.
\<close>

record 'f scan_state =
  objects :: "(int \<times> 'f obj_data) list"
  output_lines :: "string list"
  current_object_id :: "int option"
  in_support :: bool
  insert_position :: "nat option"

definition init_state :: "'f scan_state" where
  "init_state = \<lparr>objects = [], output_lines = [], current_object_id = None,
                 in_support = False, insert_position = None\<rparr>"

text \<open>\<open>s.add(p)\<close> on a set.\<close>

definition set_add :: "'a \<Rightarrow> 'a list \<Rightarrow> 'a list" where
  "set_add p ps = (if p \<in> set ps then ps else ps @ [p])"

text \<open>\<open>objects[k]["points"].add(p)\<close> for a key \<open>k\<close> of the dictionary.\<close>

definition add_point :: "int \<Rightarrow> 'f \<times> 'f \<Rightarrow> (int \<times> 'f obj_data) list \<Rightarrow> (int \<times> 'f obj_data) list" where
  "add_point k p objs =
     map (\<lambda>(k', d). if k' = k then (k', d\<lparr>obj_points := set_add p (obj_points d)\<rparr>) else (k', d)) objs"

text \<open>The condition under which a line becomes the insertion point, on the stripped line.\<close>

definition is_anchor_line :: "string \<Rightarrow> bool" where
  "is_anchor_line ls = (ls \<noteq> [] \<and> \<not> startswith ls '';'' \<and> (startswith ls ''G'' \<or> startswith ls ''M''))"

text \<open>
  \<open>int(ls.split("id:")[1].split()[0])\<close>, with \<open>None\<close> for the exception of either index
  or of \<open>int\<close>.
\<close>

definition obj_id_of :: "'f py_env \<Rightarrow> string \<Rightarrow> int option" where
  "obj_id_of env ls =
     (case index_opt (split_sep ls ''id:'') 1 of
        None \<Rightarrow> None
      | Some rest \<Rightarrow>
          (case index_opt (split_ws rest) 0 of
             None \<Rightarrow> None
           | Some tok \<Rightarrow> py_int env tok))"

text \<open>The branch of a line that starts with \<open>; printing object\<close>, after the support flag is cleared.\<close>

definition start_object :: "'f py_env \<Rightarrow> 'f scan_state \<Rightarrow> string \<Rightarrow> 'f scan_state" where
  "start_object env st ls =
     (let name_start = find_str ls ''object'' + 7;
          id_start = find_str ls ''id:''
      in if 7 < name_start \<and> 0 < id_start
         then (let nm = strip (slice ls (nat name_start) (nat id_start))
               in case obj_id_of env ls of
                    None \<Rightarrow> st
                  | Some obj_id \<Rightarrow>
                      (let st' = st\<lparr>current_object_id := Some obj_id\<rparr>
                       in if obj_id \<notin> fst ` set (objects st')
                          then st'\<lparr>objects := objects st' @
                                 [(obj_id, \<lparr>obj_name = nm, obj_points = [], obj_center = None\<rparr>)]\<rparr>
                          else st'))
         else st)"

text \<open>The collection of a point from a motion line.\<close>

definition collect :: "'f py_env \<Rightarrow> 'f scan_state \<Rightarrow> string \<Rightarrow> 'f scan_state" where
  "collect env st ls =
     (case current_object_id st of
        None \<Rightarrow> st
      | Some obj_id \<Rightarrow>
          if \<not> in_support st
          then (if startswith ls ''G1'' \<or> startswith ls ''G0''
                then (case extract_xy env ls of
                        (Some x, Some y) \<Rightarrow>
                          st\<lparr>objects := add_point obj_id (py_round env x 2, py_round env y 2) (objects st)\<rparr>
                      | _ \<Rightarrow> st)
                else st)
          else st)"

text \<open>The body of the loop over the lines.\<close>

definition scan_line :: "'f py_env \<Rightarrow> 'f scan_state \<Rightarrow> string \<Rightarrow> 'f scan_state" where
  "scan_line env st line =
     (let ls = strip line;
          st1 = st\<lparr>output_lines := output_lines st @ [line]\<rparr>;
          st2 = (if insert_position st1 = None \<and> is_anchor_line ls
                 then st1\<lparr>insert_position := Some (length (output_lines st1) - 1)\<rparr>
                 else st1)
      in if startswith ls ''; printing object''
         then start_object env (st2\<lparr>in_support := False\<rparr>) ls
         else if startswith ls ''; stop printing object''
         then st2\<lparr>current_object_id := None\<rparr>
         else if contains '';TYPE:Support'' ls \<or> contains '';type:support'' (lower ls)
         then st2\<lparr>in_support := True\<rparr>
         else (let st3 = (if contains '';TYPE:'' ls \<and> \<not> contains '';TYPE:Support'' ls
                          then st2\<lparr>in_support := False\<rparr> else st2)
               in collect env st3 ls))"

definition scan :: "'f py_env \<Rightarrow> string list \<Rightarrow> 'f scan_state" where
  "scan env lines = foldl (scan_line env) init_state lines"

section \<open>Command Emitter\<close>

text \<open>\<open>sep.join(xs)\<close>\<close>

fun join :: "string \<Rightarrow> string list \<Rightarrow> string" where
  "join sep [] = []"
| "join sep [x] = x"
| "join sep (x # y # ys) = x @ sep @ join sep (y # ys)"

text \<open>The decimal numeral that an f-string prints for a non-negative \<open>int\<close>.\<close>

definition digit_char :: "nat \<Rightarrow> char" where
  "digit_char d = ''0123456789'' ! (d mod 10)"

function str_nat :: "nat \<Rightarrow> string" where
  "str_nat n = (if n < 10 then [digit_char n] else str_nat (n div 10) @ [digit_char (n mod 10)])"
  by pat_completeness auto
termination
  by (relation "measure id") auto

text \<open>\<open>sum(xs)\<close>: the additions start from zero and go from left to right.\<close>

definition py_sum :: "'f py_env \<Rightarrow> 'f list \<Rightarrow> 'f" where
  "py_sum env xs = foldl (py_add env) (py_zero env) xs"

definition center_x :: "'f py_env \<Rightarrow> ('f \<times> 'f) list \<Rightarrow> 'f" where
  "center_x env coords = py_div env (py_sum env (map fst coords)) (length coords)"

definition center_y :: "'f py_env \<Rightarrow> ('f \<times> 'f) list \<Rightarrow> 'f" where
  "center_y env coords = py_div env (py_sum env (map snd coords)) (length coords)"

definition polygon_str :: "'f py_env \<Rightarrow> ('f \<times> 'f) list \<Rightarrow> string" where
  "polygon_str env coords =
     ''[['' @ join ''],[''
        (map (\<lambda>(x, y). py_repr env (py_round env x 3) @ '','' @ py_repr env (py_round env y 3)) coords)
      @ '']]''"

definition unique_name :: "string \<Rightarrow> nat \<Rightarrow> string" where
  "unique_name nm copy_number = (if 0 < copy_number then nm @ ''_copy'' @ str_nat copy_number else nm)"

definition define_cmd :: "'f py_env \<Rightarrow> string \<Rightarrow> nat \<Rightarrow> ('f \<times> 'f) list \<Rightarrow> string" where
  "define_cmd env nm copy_number coords =
     ''EXCLUDE_OBJECT_DEFINE NAME='' @ [CHR 0x22] @ unique_name nm copy_number @ [CHR 0x22] @ '' ''
     @ ''CENTER='' @ py_repr env (py_round env (center_x env coords) 3) @ '',''
     @ py_repr env (py_round env (center_y env coords) 3) @ '' ''
     @ ''POLYGON='' @ polygon_str env coords @ [CHR 0x0A]"

text \<open>
  What the body of the loop over \<open>objects\<close> does with one object, after the copy number
  is taken: it skips the object for too few points, for an empty hull, or for an
  exception caught by its \<open>except\<close>, or it appends one command. The library calls of the
  model return a geometry or raise, so the test \<open>hull is None\<close> has no case of its own.
  The exceptions are those of the library calls, the \<open>AttributeError\<close> of \<open>exterior\<close> on a
  geometry that is not a polygon, and the \<open>ZeroDivisionError\<close> of the mean of no
  coordinates.
\<close>

datatype outcome = TooFewPoints | NoHull | Failed error | Defined string

definition process_object ::
  "'f py_env \<Rightarrow> 'f geom_lib \<Rightarrow> string \<Rightarrow> nat \<Rightarrow> ('f \<times> 'f) list \<Rightarrow> outcome" where
  "process_object env lib nm copy_number pts =
     (if length pts < 3 then TooFewPoints
      else (case concave_hull lib pts (1 / 2) of
              Inl e \<Rightarrow> Failed e
            | Inr h \<Rightarrow>
                if is_empty h then NoHull
                else (case simplify_polygon lib h 40 of
                        Inl e \<Rightarrow> Failed e
                      | Inr h' \<Rightarrow>
                          (case exterior_coords h' of
                             Inl e \<Rightarrow> Failed e
                           | Inr coords \<Rightarrow>
                               if coords = [] then Failed ZeroDivisionError
                               else Defined (define_cmd env nm copy_number coords)))))"

text \<open>
  The loop over \<open>objects.items()\<close>, with its two accumulators: \<open>name_counts\<close>, a
  \<open>defaultdict(int)\<close>, and the list \<open>define_commands\<close>.
\<close>

fun emit_loop ::
  "'f py_env \<Rightarrow> 'f geom_lib \<Rightarrow> (string \<Rightarrow> nat) \<Rightarrow> string list \<Rightarrow> (int \<times> 'f obj_data) list \<Rightarrow> string list" where
  "emit_loop env lib name_counts define_commands [] = define_commands"
| "emit_loop env lib name_counts define_commands ((obj_id, d) # rest) =
     (let nm = obj_name d;
          copy_number = name_counts nm;
          name_counts' = name_counts(nm := name_counts nm + 1)
      in case process_object env lib nm copy_number (obj_points d) of
           Defined cmd \<Rightarrow> emit_loop env lib name_counts' (define_commands @ [cmd]) rest
         | _ \<Rightarrow> emit_loop env lib name_counts' define_commands rest)"

definition emit :: "'f py_env \<Rightarrow> 'f geom_lib \<Rightarrow> (int \<times> 'f obj_data) list \<Rightarrow> string list" where
  "emit env lib objs = emit_loop env lib (\<lambda>nm. 0) [] objs"

text \<open>\<open>xs.insert(i, x)\<close> for \<open>0 \<le> i\<close>: beyond the end it appends.\<close>

definition list_insert :: "nat \<Rightarrow> 'a \<Rightarrow> 'a list \<Rightarrow> 'a list" where
  "list_insert i x xs = take i xs @ [x] @ drop i xs"

definition marker_line :: string where
  "marker_line = [CHR 0x0A] @ ''; Generated by exact_outline_post.py'' @ [CHR 0x0A]"

text \<open>The insertion of the commands into \<open>output_lines\<close>.\<close>

definition splice_commands :: "nat \<Rightarrow> string list \<Rightarrow> string list \<Rightarrow> string list" where
  "splice_commands pos define_commands out =
     (if define_commands = [] then out
      else (let out1 = list_insert pos marker_line out;
                out2 = foldl (\<lambda>acc cmd. list_insert (pos + 1) cmd acc) out1 (rev define_commands)
            in list_insert (pos + 1 + length define_commands) [CHR 0x0A] out2))"

text \<open>
  \<open>main\<close>, from the lines that \<open>readlines()\<close> returns to the lines that \<open>writelines\<close>
  writes.
\<close>

definition main :: "'f py_env \<Rightarrow> 'f geom_lib \<Rightarrow> string list \<Rightarrow> string list" where
  "main env lib lines =
     (let st = scan env lines;
          define_commands = emit env lib (objects st);
          pos = (case insert_position st of None \<Rightarrow> 0 | Some p \<Rightarrow> p)
      in splice_commands pos define_commands (output_lines st))"

text \<open>The position at which \<open>main\<close> inserts: \<open>insert_position\<close> after the scan, 0 when it is \<open>None\<close>.\<close>

definition anchor :: "'f py_env \<Rightarrow> string list \<Rightarrow> nat" where
  "anchor env lines = (case insert_position (scan env lines) of None \<Rightarrow> 0 | Some p \<Rightarrow> p)"

text \<open>The index of the first element of a list that satisfies a predicate.\<close>

fun first_index :: "('a \<Rightarrow> bool) \<Rightarrow> 'a list \<Rightarrow> nat option" where
  "first_index P [] = None"
| "first_index P (x # xs) = (if P x then Some 0 else map_option Suc (first_index P xs))"

text \<open>
  The ring that the body of the loop over \<open>objects\<close> serializes for a set of points, or
  \<open>None\<close> when it skips the object. It is \<open>process_object\<close> without the text of the
  command.
\<close>

definition object_coords :: "'f geom_lib \<Rightarrow> ('f \<times> 'f) list \<Rightarrow> ('f \<times> 'f) list option" where
  "object_coords lib pts =
     (if length pts < 3 then None
      else (case concave_hull lib pts (1 / 2) of
              Inl e \<Rightarrow> None
            | Inr h \<Rightarrow>
                if is_empty h then None
                else (case simplify_polygon lib h 40 of
                        Inl e \<Rightarrow> None
                      | Inr h' \<Rightarrow>
                          (case exterior_coords h' of
                             Inl e \<Rightarrow> None
                           | Inr coords \<Rightarrow> if coords = [] then None else Some coords))))"

text \<open>
  The number of objects in a list that carry a given name: for a prefix of \<open>objects\<close>, the
  number of objects with that name that the loop has met before.
\<close>

definition same_name_count :: "string \<Rightarrow> (int \<times> 'f obj_data) list \<Rightarrow> nat" where
  "same_name_count nm objs = length (filter (\<lambda>e. obj_name (snd e) = nm) objs)"

text \<open>
  When the construction of a hull counts as failed. The concave hull fails when there
  are fewer than 4 points, for which it is not attempted, or when \<open>alphashape\<close> raises
  or returns neither a \<open>Polygon\<close> nor a \<open>MultiPolygon\<close> with a member. The convex hull
  fails when \<open>MultiPoint(points).convex_hull\<close> raises or does not return a non-empty
  \<open>Polygon\<close>, as for collinear points.
\<close>

definition concave_hull_fails :: "'f geom_lib \<Rightarrow> ('f \<times> 'f) list \<Rightarrow> bool" where
  "concave_hull_fails lib pts =
     (length pts < 4 \<or>
      (case alphashape lib pts (1 / 2) of
         Inr (Polygon cs) \<Rightarrow> False
       | Inr (MultiPolygon gs) \<Rightarrow> gs = []
       | _ \<Rightarrow> True))"

definition convex_hull_fails :: "'f geom_lib \<Rightarrow> ('f \<times> 'f) list \<Rightarrow> bool" where
  "convex_hull_fails lib pts =
     (case convex_hull lib pts of
        Inr (Polygon cs) \<Rightarrow> cs = []
      | _ \<Rightarrow> True)"

definition omitted :: "'f geom_lib \<Rightarrow> ('f \<times> 'f) list \<Rightarrow> bool" where
  "omitted lib pts = (length pts < 3 \<or> (concave_hull_fails lib pts \<and> convex_hull_fails lib pts))"

text \<open>The part of \<open>object_coords\<close> that follows the call of \<open>concave_hull\<close>.\<close>

definition ring_of_hull :: "'f geom_lib \<Rightarrow> error + 'f geom \<Rightarrow> ('f \<times> 'f) list option" where
  "ring_of_hull lib r =
     (case r of
        Inl e \<Rightarrow> None
      | Inr h \<Rightarrow>
          if is_empty h then None
          else (case simplify_polygon lib h 40 of
                  Inl e \<Rightarrow> None
                | Inr h' \<Rightarrow>
                    (case exterior_coords h' of
                       Inl e \<Rightarrow> None
                     | Inr coords \<Rightarrow> if coords = [] then None else Some coords)))"

section \<open>A concrete instance\<close>

text \<open>
  An instance of the parameters for the examples below. Floats are rational numbers:
  the parsers read unsigned decimal numerals without a fraction, \<open>round\<close> rounds half to
  even, and \<open>repr\<close> prints up to three decimals. The library returns the triangle for
  three points that are not collinear and a \<open>LineString\<close> for three collinear ones; the
  examples pass it three points or none, and for any other number it returns an empty
  collection. \<open>alphashape\<close> raises, as it does where the package is not installed, and
  \<open>simplify\<close> keeps its argument.
\<close>

definition dec_nat :: "string \<Rightarrow> nat option" where
  "dec_nat s =
     (if s \<noteq> [] \<and> list_all (\<lambda>c. c \<in> set ''0123456789'') s
      then Some (foldl (\<lambda>n c. 10 * n + (of_char c - 48)) 0 s)
      else None)"

definition round_half_even :: "rat \<Rightarrow> int" where
  "round_half_even r =
     (let f = \<lfloor>r\<rfloor>; d = r - of_int f
      in if d < 1 / 2 then f else if 1 / 2 < d then f + 1 else if even f then f else f + 1)"

definition demo_round :: "rat \<Rightarrow> nat \<Rightarrow> rat" where
  "demo_round x n = of_int (round_half_even (x * 10 ^ n)) / 10 ^ n"

definition demo_repr :: "rat \<Rightarrow> string" where
  "demo_repr x =
     (let m = nat \<lfloor>\<bar>x\<bar> * 1000\<rfloor>;
          frac = [digit_char (m div 100), digit_char (m div 10), digit_char m];
          frac' = rev (dropWhile (\<lambda>c. c = CHR ''0'') (rev frac))
      in (if x < 0 then ''-'' else []) @ str_nat (m div 1000) @ ''.'' @ (if frac' = [] then ''0'' else frac'))"

definition demo_env :: "rat py_env" where
  "demo_env = \<lparr>py_int = map_option int \<circ> dec_nat,
               py_float = map_option of_nat \<circ> dec_nat,
               py_round = demo_round,
               py_zero = 0,
               py_add = (+),
               py_div = (\<lambda>x n. x / of_nat n),
               py_repr = demo_repr\<rparr>"

definition demo_convex_hull :: "(rat \<times> rat) list \<Rightarrow> error + rat geom" where
  "demo_convex_hull ps =
     (case ps of
        [a, b, c] \<Rightarrow>
          if (fst b - fst a) * (snd c - snd a) - (snd b - snd a) * (fst c - fst a) = 0
          then Inr (OtherGeom ''LineString'' False)
          else Inr (Polygon [a, b, c, a])
      | _ \<Rightarrow> Inr (OtherGeom ''GeometryCollection'' True))"

definition demo_lib :: "rat geom_lib" where
  "demo_lib = \<lparr>convex_hull = demo_convex_hull,
               alphashape = (\<lambda>ps a. Inl LibraryError),
               simplify = (\<lambda>g tol. Inr g),
               area = (\<lambda>cs. 0)\<rparr>"

text \<open>
  A second library whose \<open>simplify\<close> keeps a ring below tolerance 1 and cuts it to its
  first four vertices from there on, and a ring of 45 vertices.
\<close>

definition coarse_lib :: "rat geom_lib" where
  "coarse_lib = demo_lib\<lparr>simplify :=
     (\<lambda>g tol. case g of Polygon cs \<Rightarrow> Inr (Polygon (if tol < 1 then cs else take 4 cs))
                       | _ \<Rightarrow> Inr g)\<rparr>"

definition long_ring :: "(rat \<times> rat) list" where
  "long_ring = map (\<lambda>i. (of_nat i, 0)) [0..<45]"

text \<open>
  A stream with two objects named \<open>Cube\<close>: the first has no motion line, the second has
  three.
\<close>

definition demo_lines :: "string list" where
  "demo_lines = [''; header'' @ [CHR 0x0A],
     ''; printing object Cube id:1'' @ [CHR 0x0A],
     ''; stop printing object Cube id:1'' @ [CHR 0x0A],
     ''; printing object Cube id:2'' @ [CHR 0x0A],
     ''G1 X0 Y0'' @ [CHR 0x0A],
     ''G1 X4 Y0'' @ [CHR 0x0A],
     ''G1 X0 Y4'' @ [CHR 0x0A]]"

definition demo_objects :: "(int \<times> rat obj_data) list" where
  "demo_objects =
     [(1, \<lparr>obj_name = ''Cube'', obj_points = [], obj_center = None\<rparr>),
      (2, \<lparr>obj_name = ''Cube'', obj_points = [(0, 0), (4, 0), (0, 4)], obj_center = None\<rparr>)]"

text \<open>A scanner state with an active object inside a support region.\<close>

definition support_state :: "rat scan_state" where
  "support_state =
     \<lparr>objects = [(3, \<lparr>obj_name = ''Cube'', obj_points = [], obj_center = None\<rparr>)],
      output_lines = [], current_object_id = Some 3, in_support = True,
      insert_position = None\<rparr>"

lemmas eval_defs = strip_def is_space_def is_anchor_line_def obj_id_of_def split_sep_def
  split_ws_def index_opt_def slice_def lower_def lower_char_def start_object_def collect_def
  scan_line_def scan_def init_state_def extract_xy_def extract_part_def set_add_def add_point_def
  demo_env_def dec_nat_def demo_round_def round_half_even_def Let_def

section \<open>Properties of \<open>extract_xy\<close>\<close>

lemma axis_values_snoc:
  "axis_values env axis (parts @ [part]) =
     axis_values env axis parts @
       (if startswith part axis then (case py_float env (drop 1 part) of None \<Rightarrow> [] | Some v \<Rightarrow> [v]) else [])"
  by (simp add: axis_values_def List.map_filter_def split: option.splits)

lemma extract_fold:
  "foldl (extract_part env) (None, None) parts =
     (last_option (axis_values env ''X'' parts), last_option (axis_values env ''Y'' parts))"
proof (induction parts rule: rev_induct)
  case Nil
  show ?case by (simp add: axis_values_def List.map_filter_def last_option_def)
next
  case (snoc part parts)
  have "foldl (extract_part env) (None, None) (parts @ [part]) =
          extract_part env (foldl (extract_part env) (None, None) parts) part"
    by simp
  also have "\<dots> = extract_part env
      (last_option (axis_values env ''X'' parts), last_option (axis_values env ''Y'' parts)) part"
    by (simp only: snoc.IH)
  also have "\<dots> = (last_option (axis_values env ''X'' (parts @ [part])),
                     last_option (axis_values env ''Y'' (parts @ [part])))"
    by (simp add: axis_values_snoc extract_part_def last_option_def Let_def
        split: option.splits)
  finally show ?case .
qed

text \<open>
  C10. On every line, \<open>extract_xy\<close> returns for each axis the value of the last field of
  that axis that parses as a float: a later field that does not parse changes nothing,
  and an axis without a parseable field has no coordinate.
\<close>

theorem extract_xy_last_parseable:
  "extract_xy env line =
     (last_option (axis_values env ''X'' (split_ws line)),
      last_option (axis_values env ''Y'' (split_ws line)))"
  by (simp add: extract_xy_def extract_fold)

theorem extract_xy_last_parseable_witness:
  "extract_xy demo_env ''G1 X12 Y5 X1a E3'' = (Some 12, Some 5) \<and>
   extract_xy demo_env ''G1 Xa F3'' = (None, None)"
  unfolding extract_xy_last_parseable
  by (simp add: axis_values_def List.map_filter_def last_option_def split_ws_def is_space_def
      demo_env_def dec_nat_def)

section \<open>Properties of the Hull Builder\<close>



section \<open>Properties of the Polygon Simplifier\<close>

declare simplify_loop.simps [simp del]

text \<open>
  The loop, entered with a result of \<open>simplify\<close> at the current tolerance, returns after
  some number \<open>n\<close> of rounds: each round found more than \<open>m\<close> vertices at a tolerance
  below 10, and the result is the simplification of the original polygon at the final
  tolerance.
\<close>

lemma simplify_loop_spec:
  "(\<And>tol. \<exists>cs. simplify lib poly tol = Inr (Polygon cs)) \<Longrightarrow>
   simplify lib poly tolerance = Inr simplified \<Longrightarrow>
     \<exists>r t n. simplify_loop lib poly m tolerance simplified = Inr (Polygon r, t) \<and>
        t = tolerance + of_nat n / 2 \<and>
        simplify lib poly t = Inr (Polygon r) \<and>
        (length r \<le> m \<or> 10 \<le> t) \<and>
        (\<forall>j<n. tolerance + of_nat j / 2 < 10 \<and>
            (\<exists>cs. simplify lib poly (tolerance + of_nat j / 2) = Inr (Polygon cs) \<and> m < length cs))"
proof (induction lib poly m tolerance simplified rule: simplify_loop.induct)
  case (1 lib poly m tol simplified)
  note contract = "1.prems"(1)
  from contract[of tol] "1.prems"(2) obtain cs where cs: "simplified = Polygon cs"
    by auto
  show ?case
  proof (cases "m < length cs \<and> tol < 10")
    case False
    have "simplify_loop lib poly m tol simplified = Inr (Polygon cs, tol)"
      using False by (subst simplify_loop.simps) (auto simp add: cs)
    moreover have "simplify lib poly tol = Inr (Polygon cs)"
      using "1.prems"(2) cs by simp
    moreover have "length cs \<le> m \<or> 10 \<le> tol"
      using False by auto
    ultimately show ?thesis
      by (intro exI[of _ cs] exI[of _ tol] exI[of _ "0::nat"]) simp
  next
    case True
    from contract[of "tol + 1 / 2"] obtain cs' where
      s': "simplify lib poly (tol + 1 / 2) = Inr (Polygon cs')" by auto
    have step: "simplify_loop lib poly m tol simplified =
                  simplify_loop lib poly m (tol + 1 / 2) (Polygon cs')"
      using True by (subst simplify_loop.simps) (simp add: cs s')
    have "\<exists>r t n. simplify_loop lib poly m (tol + 1 / 2) (Polygon cs') = Inr (Polygon r, t) \<and>
        t = (tol + 1 / 2) + of_nat n / 2 \<and>
        simplify lib poly t = Inr (Polygon r) \<and>
        (length r \<le> m \<or> 10 \<le> t) \<and>
        (\<forall>j<n. (tol + 1 / 2) + of_nat j / 2 < 10 \<and>
            (\<exists>cs. simplify lib poly ((tol + 1 / 2) + of_nat j / 2) = Inr (Polygon cs) \<and> m < length cs))"
      using True cs s' contract
      by (intro "1.IH"[of cs "Polygon cs'"]) simp_all
    then obtain r t n where
      res: "simplify_loop lib poly m (tol + 1 / 2) (Polygon cs') = Inr (Polygon r, t)"
      and t: "t = (tol + 1 / 2) + of_nat n / 2"
      and fin: "simplify lib poly t = Inr (Polygon r)" "length r \<le> m \<or> 10 \<le> t"
      and before: "\<And>j. j < n \<Longrightarrow> (tol + 1 / 2) + of_nat j / 2 < 10 \<and>
            (\<exists>cs. simplify lib poly ((tol + 1 / 2) + of_nat j / 2) = Inr (Polygon cs) \<and> m < length cs)"
      by blast
    have t': "t = tol + of_nat (Suc n) / 2"
      using t by (simp add: field_simps)
    have all: "tol + of_nat j / 2 < 10 \<and>
            (\<exists>cs. simplify lib poly (tol + of_nat j / 2) = Inr (Polygon cs) \<and> m < length cs)"
      if "j < Suc n" for j
    proof (cases j)
      case 0
      then show ?thesis using True "1.prems"(2) cs by simp
    next
      case (Suc i)
      have e: "tol + of_nat j / 2 = (tol + 1 / 2) + of_nat i / 2"
        unfolding Suc by (simp add: field_simps)
      have "i < n" using that Suc by simp
      from before[OF this] show ?thesis unfolding e .
    qed
    show ?thesis
      using step res t' fin all
      by (intro exI[of _ r] exI[of _ t] exI[of _ "Suc n"]) simp
  qed
qed

text \<open>
  C3. On a polygon that \<open>simplify\<close> maps to a polygon at every tolerance,
  \<open>simplify_polygon\<close> with the cap 40 returns. It starts at tolerance 0.1 and makes some
  number \<open>n \<le> 20\<close> of rounds, each of which found more than 40 vertices, adds 0.5 to
  the tolerance and simplifies the original polygon again. The result is the
  simplification of the original polygon at the final tolerance \<open>0.1 + 0.5 n\<close>, and it has
  at most 40 vertices or the final tolerance is 10 or more.
\<close>

theorem simplify_polygon_terminates_capped:
  assumes "\<And>tol. \<exists>cs. simplify lib (Polygon ring) tol = Inr (Polygon cs)"
  shows "\<exists>r t n. simplify_polygon_trace lib (Polygon ring) 40 = Inr (Polygon r, t) \<and>
           simplify_polygon lib (Polygon ring) 40 = Inr (Polygon r) \<and>
           n \<le> 20 \<and> t = 1 / 10 + of_nat n / 2 \<and>
           simplify lib (Polygon ring) t = Inr (Polygon r) \<and>
           (length r \<le> 40 \<or> 10 \<le> t) \<and>
           (\<forall>j<n. \<exists>cs. simplify lib (Polygon ring) (1 / 10 + of_nat j / 2) = Inr (Polygon cs) \<and>
                         40 < length cs)"
proof -
  from assms[of "1 / 10"] obtain cs0 where
    s0: "simplify lib (Polygon ring) (1 / 10) = Inr (Polygon cs0)" by auto
  from simplify_loop_spec[of lib "Polygon ring" "1 / 10" "Polygon cs0" 40, OF assms s0]
  obtain r t n where
    res: "simplify_loop lib (Polygon ring) 40 (1 / 10) (Polygon cs0) = Inr (Polygon r, t)"
    and t: "t = 1 / 10 + of_nat n / 2"
    and fin: "simplify lib (Polygon ring) t = Inr (Polygon r)" "length r \<le> 40 \<or> 10 \<le> t"
    and before: "\<And>j. j < n \<Longrightarrow> (1 / 10 :: rat) + of_nat j / 2 < 10 \<and>
        (\<exists>cs. simplify lib (Polygon ring) (1 / 10 + of_nat j / 2) = Inr (Polygon cs) \<and> 40 < length cs)"
    by blast
  have n: "n \<le> 20"
  proof (rule ccontr)
    assume "\<not> n \<le> 20"
    then have "20 < n" by simp
    from before[OF this] show False by simp
  qed
  have trace: "simplify_polygon_trace lib (Polygon ring) 40 = Inr (Polygon r, t)"
    by (simp add: simplify_polygon_trace_def s0 res)
  then have "simplify_polygon lib (Polygon ring) 40 = Inr (Polygon r)"
    by (simp add: simplify_polygon_def)
  with trace n t fin before show ?thesis
    by (intro exI[of _ r] exI[of _ t] exI[of _ n]) simp
qed

theorem simplify_polygon_terminates_capped_witness:
  "\<exists>r t n. simplify_polygon_trace coarse_lib (Polygon long_ring) 40 = Inr (Polygon r, t) \<and>
           simplify_polygon coarse_lib (Polygon long_ring) 40 = Inr (Polygon r) \<and>
           n \<le> 20 \<and> t = 1 / 10 + of_nat n / 2 \<and>
           simplify coarse_lib (Polygon long_ring) t = Inr (Polygon r) \<and>
           (length r \<le> 40 \<or> 10 \<le> t) \<and>
           (\<forall>j<n. \<exists>cs. simplify coarse_lib (Polygon long_ring) (1 / 10 + of_nat j / 2) = Inr (Polygon cs) \<and>
                         40 < length cs)"
  by (rule simplify_polygon_terminates_capped) (simp add: coarse_lib_def)

section \<open>Properties of the Stream Scanner\<close>

lemma startswith_first: "startswith ls (p # ps) \<Longrightarrow> startswith ls [p]"
  by (cases ls) simp_all

lemma comment_not_anchor: "startswith ls [CHR '';''] \<Longrightarrow> \<not> is_anchor_line ls"
  by (simp add: is_anchor_line_def)

lemma start_object_frame:
  "output_lines (start_object env st ls) = output_lines st"
  "insert_position (start_object env st ls) = insert_position st"
  "in_support (start_object env st ls) = in_support st"
  by (simp_all add: start_object_def Let_def split: option.splits)

lemma collect_frame:
  "output_lines (collect env st ls) = output_lines st"
  "insert_position (collect env st ls) = insert_position st"
  "in_support (collect env st ls) = in_support st"
  "current_object_id (collect env st ls) = current_object_id st"
  by (simp_all add: collect_def split: option.splits prod.splits)

lemma scan_line_output_lines:
  "output_lines (scan_line env st line) = output_lines st @ [line]"
  by (simp add: scan_line_def Let_def start_object_frame collect_frame)

lemma scan_line_insert_position:
  "insert_position (scan_line env st line) =
     (case insert_position st of
        Some p \<Rightarrow> Some p
      | None \<Rightarrow> if is_anchor_line (strip line) then Some (length (output_lines st)) else None)"
  by (simp add: scan_line_def Let_def start_object_frame collect_frame split: option.splits)

lemma find_str_negative: "find_str s sub < 0 \<longleftrightarrow> \<not> contains sub s"
  by (induction s) (auto simp add: Let_def)

lemma start_object_no_id:
  "find_str ls ''id:'' \<le> 0 \<or> obj_id_of env ls = None \<Longrightarrow> start_object env st ls = st"
  by (auto simp add: start_object_def Let_def)

text \<open>
  C9. A line that, stripped, starts with \<open>; printing object\<close> and either has no \<open>id:\<close>
  or has no integer after it (the piece after \<open>id:\<close> has no field, or \<open>int\<close> rejects
  the field) changes the state in two places only: the line is appended to the output,
  and the support flag is cleared. The active object id and the dictionary of objects
  stay as they were.
\<close>

theorem start_line_without_id:
  assumes "startswith (strip line) ''; printing object''"
      and "\<not> contains ''id:'' (strip line) \<or> obj_id_of env (strip line) = None"
  shows "scan_line env st line = st\<lparr>output_lines := output_lines st @ [line], in_support := False\<rparr>"
proof -
  have "\<not> is_anchor_line (strip line)"
    using assms(1) by (intro comment_not_anchor) (rule startswith_first)
  moreover have "find_str (strip line) ''id:'' \<le> 0 \<or> obj_id_of env (strip line) = None"
    using assms(2) find_str_negative[of "strip line" "''id:''"] by auto
  ultimately show ?thesis
    using assms(1) by (simp add: scan_line_def Let_def start_object_no_id)
qed

theorem start_line_without_id_witness:
  "scan_line demo_env support_state ''; printing object Cube id:x7'' =
     support_state\<lparr>output_lines := output_lines support_state @ [''; printing object Cube id:x7''],
                   in_support := False\<rparr> \<and>
   scan_line demo_env support_state ''; printing object Cube'' =
     support_state\<lparr>output_lines := output_lines support_state @ [''; printing object Cube''],
                   in_support := False\<rparr>"
proof
  show "scan_line demo_env support_state ''; printing object Cube id:x7'' =
     support_state\<lparr>output_lines := output_lines support_state @ [''; printing object Cube id:x7''],
                   in_support := False\<rparr>"
    by (rule start_line_without_id) (simp_all add: eval_defs)
  show "scan_line demo_env support_state ''; printing object Cube'' =
     support_state\<lparr>output_lines := output_lines support_state @ [''; printing object Cube''],
                   in_support := False\<rparr>"
    by (rule start_line_without_id) (simp_all add: eval_defs)
qed

subsection \<open>Region-type markers\<close>

text \<open>
  A line that is neither an object start nor an object stop and that contains
  \<open>;type:support\<close> in any letter case sets the support flag and keeps the active object
  id and the objects.
\<close>

lemma support_marker_case_insensitive:
  assumes "\<not> startswith (strip line) ''; printing object''"
      and "\<not> startswith (strip line) ''; stop printing object''"
      and "contains '';type:support'' (lower (strip line))"
  shows "in_support (scan_line env st line) \<and>
         current_object_id (scan_line env st line) = current_object_id st \<and>
         objects (scan_line env st line) = objects st"
  using assms by (simp add: scan_line_def Let_def)

text \<open>
  A line of the same kind that contains \<open>;TYPE:\<close> in upper case, and no support marker
  in any case, clears the support flag and keeps the active object id.
\<close>

lemma upper_type_marker_clears_support:
  assumes "\<not> startswith (strip line) ''; printing object''"
      and "\<not> startswith (strip line) ''; stop printing object''"
      and "\<not> contains '';type:support'' (lower (strip line))"
      and "\<not> contains '';TYPE:Support'' (strip line)"
      and "contains '';TYPE:'' (strip line)"
  shows "\<not> in_support (scan_line env st line) \<and>
         current_object_id (scan_line env st line) = current_object_id st"
  using assms by (simp add: scan_line_def Let_def collect_frame)

text \<open>
  C2, at the input on which the code departs from it. Inside a support region with
  object 3 active, the marker \<open>;type:Outer wall\<close> in lower case leaves the support flag
  set, and the motion line after it adds no point; the same marker written
  \<open>;TYPE:Outer wall\<close> clears the flag, and the motion line adds its point. The last
  two equations read the same from a stream of four lines.
\<close>

theorem lowercase_type_marker_keeps_support:
  "in_support (scan_line demo_env support_state '';type:Outer wall'') = True \<and>
   objects (scan_line demo_env (scan_line demo_env support_state '';type:Outer wall'') ''G1 X1 Y2'') =
     objects support_state \<and>
   in_support (scan_line demo_env support_state '';TYPE:Outer wall'') = False \<and>
   objects (scan_line demo_env (scan_line demo_env support_state '';TYPE:Outer wall'') ''G1 X1 Y2'') =
     [(3, \<lparr>obj_name = ''Cube'', obj_points = [(1, 2)], obj_center = None\<rparr>)] \<and>
   objects (scan demo_env [''; printing object Cube id:3'', '';TYPE:Support'',
                           '';type:Outer wall'', ''G1 X1 Y2'']) =
     [(3, \<lparr>obj_name = ''Cube'', obj_points = [], obj_center = None\<rparr>)] \<and>
   objects (scan demo_env [''; printing object Cube id:3'', '';TYPE:Support'',
                           '';TYPE:Outer wall'', ''G1 X1 Y2'']) =
     [(3, \<lparr>obj_name = ''Cube'', obj_points = [(1, 2)], obj_center = None\<rparr>)]"
  by (simp add: support_state_def eval_defs)

section \<open>The insertion anchor\<close>

lemma first_index_None: "first_index P xs = None \<longleftrightarrow> (\<forall>x \<in> set xs. \<not> P x)"
  by (induction xs) auto

lemma first_index_Some:
  "first_index P xs = Some i \<Longrightarrow> i < length xs \<and> P (xs ! i) \<and> (\<forall>j<i. \<not> P (xs ! j))"
proof (induction xs arbitrary: i)
  case Nil
  then show ?case by simp
next
  case (Cons x xs)
  show ?case
  proof (cases "P x")
    case True
    with Cons.prems show ?thesis by simp
  next
    case False
    with Cons.prems obtain k where k: "first_index P xs = Some k" "i = Suc k"
      by auto
    from Cons.IH[OF k(1)] have ih: "k < length xs" "P (xs ! k)" "\<forall>j<k. \<not> P (xs ! j)"
      by auto
    have "\<not> P ((x # xs) ! j)" if "j < i" for j
      using that False ih(3) k(2) by (cases j) auto
    with ih k(2) show ?thesis by simp
  qed
qed

lemma scan_fold_output_lines:
  "output_lines (foldl (scan_line env) st ls) = output_lines st @ ls"
  by (induction ls arbitrary: st) (simp_all add: scan_line_output_lines)

lemma scan_fold_insert_position:
  "insert_position (foldl (scan_line env) st ls) =
     (case insert_position st of
        Some p \<Rightarrow> Some p
      | None \<Rightarrow> map_option (\<lambda>i. length (output_lines st) + i)
                  (first_index (\<lambda>l. is_anchor_line (strip l)) ls))"
proof (induction ls arbitrary: st)
  case Nil
  show ?case by (simp split: option.splits)
next
  case (Cons l ls)
  show ?case
    by (cases "first_index (\<lambda>l. is_anchor_line (strip l)) ls")
       (simp_all add: Cons.IH scan_line_insert_position scan_line_output_lines
          split: option.splits)
qed

lemma anchor_first_index:
  "anchor env lines =
     (case first_index (\<lambda>l. is_anchor_line (strip l)) lines of None \<Rightarrow> 0 | Some i \<Rightarrow> i)"
  by (simp add: anchor_def scan_def scan_fold_insert_position init_state_def split: option.splits)

lemma anchor_le_length: "anchor env lines \<le> length lines"
  using first_index_Some[of "\<lambda>l. is_anchor_line (strip l)" lines]
  by (auto simp add: anchor_first_index split: option.splits)

text \<open>
  C7. The anchor is the index of the first line that, stripped, is not empty, does not
  start with \<open>;\<close> and starts with \<open>G\<close> or \<open>M\<close>; it is 0 when no line is such a line. A
  position that is recorded is kept by every later line.
\<close>

theorem anchor_is_first_command_line:
  "((\<exists>i<length lines. is_anchor_line (strip (lines ! i)) \<and>
        (\<forall>j<i. \<not> is_anchor_line (strip (lines ! j))) \<and> anchor env lines = i)
    \<or> ((\<forall>l \<in> set lines. \<not> is_anchor_line (strip l)) \<and> anchor env lines = 0))
   \<and> (\<forall>st p line. insert_position st = Some p \<longrightarrow>
          insert_position (scan_line env st line) = Some p)"
proof -
  let ?P = "\<lambda>l. is_anchor_line (strip l)"
  have keep: "\<forall>st p line. insert_position st = Some p \<longrightarrow>
          insert_position (scan_line env st line) = Some (p::nat)"
    by (simp add: scan_line_insert_position)
  show ?thesis
  proof (cases "first_index ?P lines")
    case None
    then have "\<forall>l \<in> set lines. \<not> ?P l" by (simp add: first_index_None)
    moreover have "anchor env lines = 0" by (simp add: anchor_first_index None)
    ultimately show ?thesis using keep by blast
  next
    case (Some i)
    from first_index_Some[OF Some] have "i < length lines" "?P (lines ! i)" "\<forall>j<i. \<not> ?P (lines ! j)"
      by auto
    moreover have "anchor env lines = i" by (simp add: anchor_first_index Some)
    ultimately show ?thesis using keep by blast
  qed
qed

section \<open>The output lines\<close>

lemma splice_fold:
  "length A = pos \<Longrightarrow>
   foldl (\<lambda>acc cmd. list_insert (pos + 1) cmd acc) (A @ m # B) (rev cmds) = A @ m # cmds @ B"
proof (induction cmds)
  case Nil
  show ?case by simp
next
  case (Cons c cs)
  then show ?case by (simp add: list_insert_def)
qed

lemma splice_closed:
  assumes "pos \<le> length out"
  shows "splice_commands pos cmds out =
     (if cmds = [] then out
      else take pos out @ [marker_line] @ cmds @ [[CHR 0x0A]] @ drop pos out)"
proof (cases "cmds = []")
  case True
  then show ?thesis by (simp add: splice_commands_def)
next
  case False
  have len: "length (take pos out) = pos" using assms by simp
  have out1: "list_insert pos marker_line out = take pos out @ marker_line # drop pos out"
    by (simp add: list_insert_def)
  have out2: "foldl (\<lambda>acc cmd. list_insert (pos + 1) cmd acc)
                (list_insert pos marker_line out) (rev cmds) =
              take pos out @ marker_line # cmds @ drop pos out"
    unfolding out1 by (rule splice_fold[OF len])
  have out3: "list_insert (pos + 1 + length cmds) [CHR 0x0A]
                (take pos out @ marker_line # cmds @ drop pos out) =
              take pos out @ marker_line # cmds @ [CHR 0x0A] # drop pos out"
    using len by (simp add: list_insert_def)
  have "splice_commands pos cmds out =
          take pos out @ marker_line # cmds @ [CHR 0x0A] # drop pos out"
    unfolding splice_commands_def Let_def out2 out3 using False by simp
  then show ?thesis
    using False by simp
qed

text \<open>
  C6. When no command is emitted the output is the input. Otherwise the output is the
  input with one block inserted before the anchor line: the marker line (an empty line
  and the comment), the commands in the order of emission, and an empty line. The input
  lines before and from the anchor on are unchanged and in order.
\<close>

theorem main_passes_lines_through:
  "main env lib lines =
     (let cmds = emit env lib (objects (scan env lines)); p = anchor env lines
      in if cmds = [] then lines
         else take p lines @ [marker_line] @ cmds @ [[CHR 0x0A]] @ drop p lines)"
proof -
  have out: "output_lines (scan env lines) = lines"
    by (simp add: scan_def scan_fold_output_lines init_state_def)
  have "anchor env lines \<le> length (output_lines (scan env lines))"
    unfolding out by (rule anchor_le_length)
  from splice_closed[OF this] show ?thesis
    by (simp add: main_def Let_def out anchor_def)
qed

section \<open>Properties of the Command Emitter\<close>

lemma process_object_Defined:
  "object_coords lib pts = Some coords \<Longrightarrow>
     process_object env lib nm k pts = Defined (define_cmd env nm k coords)"
  by (auto simp add: process_object_def object_coords_def split: sum.splits if_splits)

lemma process_object_skipped:
  "object_coords lib pts = None \<Longrightarrow> process_object env lib nm k pts \<noteq> Defined c"
  by (auto simp add: process_object_def object_coords_def split: sum.splits if_splits)

lemma process_object_few:
  "length pts < 3 \<Longrightarrow> process_object env lib nm k pts = TooFewPoints"
  by (simp add: process_object_def)

lemma emit_loop_step:
  "emit_loop env lib nc cmds ((k, d) # rest) =
     emit_loop env lib (nc(obj_name d := nc (obj_name d) + 1))
       (cmds @ (case object_coords lib (obj_points d) of
                  None \<Rightarrow> []
                | Some coords \<Rightarrow> [define_cmd env (obj_name d) (nc (obj_name d)) coords]))
       rest"
proof (cases "object_coords lib (obj_points d)")
  case None
  from process_object_skipped[OF this, of env "obj_name d" "nc (obj_name d)"]
  show ?thesis
    by (simp add: None Let_def split: outcome.splits)
next
  case (Some coords)
  from process_object_Defined[OF this, of env "obj_name d" "nc (obj_name d)"]
  show ?thesis
    by (simp add: Some Let_def)
qed

lemma emit_loop_snoc:
  "emit_loop env lib nc cmds (objs @ [(k, d)]) =
     emit_loop env lib nc cmds objs @
       (case object_coords lib (obj_points d) of
          None \<Rightarrow> []
        | Some coords \<Rightarrow>
            [define_cmd env (obj_name d) (nc (obj_name d) + same_name_count (obj_name d) objs) coords])"
proof (induction objs arbitrary: nc cmds)
  case Nil
  show ?case
    by (simp only: append_Nil emit_loop_step emit_loop.simps same_name_count_def filter.simps list.size add_0_right)
next
  case (Cons e objs)
  obtain k' d' where e: "e = (k', d')" by (cases e)
  show ?case
    unfolding e append_Cons emit_loop_step Cons.IH
    by (cases "object_coords lib (obj_points d)"; cases "obj_name d' = obj_name d")
       (simp_all add: same_name_count_def)
qed

lemma object_coords_few: "length pts < 3 \<Longrightarrow> object_coords lib pts = None"
  by (simp add: object_coords_def)

lemma object_coords_Some:
  "object_coords lib pts = Some coords \<Longrightarrow>
     \<exists>h h'. 3 \<le> length pts \<and> concave_hull lib pts (1 / 2) = Inr h \<and> \<not> is_empty h \<and>
            simplify_polygon lib h 40 = Inr h' \<and> exterior_coords h' = Inr coords \<and> coords \<noteq> []"
  by (auto simp add: object_coords_def split: sum.splits if_splits)

lemma emit_snoc:
  "emit env lib (objs @ [(k, d)]) =
     emit env lib objs @
       (case object_coords lib (obj_points d) of
          None \<Rightarrow> []
        | Some coords \<Rightarrow> [define_cmd env (obj_name d) (same_name_count (obj_name d) objs) coords])"
  unfolding emit_def emit_loop_snoc
  by (cases "object_coords lib (obj_points d)") simp_all

lemma emit_member:
  "cmd \<in> set (emit env lib objs) \<Longrightarrow>
     \<exists>k d copy_number coords. (k, d) \<in> set objs \<and>
        object_coords lib (obj_points d) = Some coords \<and>
        cmd = define_cmd env (obj_name d) copy_number coords"
proof (induction objs rule: rev_induct)
  case Nil
  then show ?case by (simp add: emit_def)
next
  case (snoc e objs)
  obtain k d where e: "e = (k, d)" by (cases e)
  show ?case
  proof (cases "cmd \<in> set (emit env lib objs)")
    case True
    from snoc.IH[OF this] show ?thesis by auto
  next
    case False
    show ?thesis
    proof (cases "object_coords lib (obj_points d)")
      case None
      with snoc.prems False show ?thesis by (simp add: e emit_snoc)
    next
      case (Some coords)
      with snoc.prems False
      have "cmd = define_cmd env (obj_name d) (same_name_count (obj_name d) objs) coords"
        by (simp add: e emit_snoc)
      with Some show ?thesis unfolding e by auto
    qed
  qed
qed

subsection \<open>The example stream\<close>

lemma scan_demo_lines:
  "scan demo_env demo_lines =
     \<lparr>objects = demo_objects, output_lines = demo_lines, current_object_id = Some 2,
      in_support = False, insert_position = Some 4\<rparr>"
  by (simp add: demo_lines_def demo_objects_def eval_defs)

lemma demo_coords: "object_coords demo_lib [(0, 0), (4, 0), (0, 4)] = Some [(0, 0), (4, 0), (0, 4), (0, 0)]"
  by (simp add: object_coords_def concave_hull_def demo_lib_def demo_convex_hull_def
      simplify_polygon_def simplify_polygon_trace_def simplify_loop.simps)

lemma demo_cmd: "define_cmd demo_env ''Cube'' (Suc 0) [(0, 0), (4, 0), (0, 4), (0, 0)] =
   ''EXCLUDE_OBJECT_DEFINE NAME='' @ [CHR 0x22] @ ''Cube_copy1'' @ [CHR 0x22] @
       '' CENTER=1.0,1.0 POLYGON=[[0.0,0.0],[4.0,0.0],[0.0,4.0],[0.0,0.0]]'' @ [CHR 0x0A]"
  by (simp add: define_cmd_def unique_name_def center_x_def center_y_def py_sum_def polygon_str_def
     demo_env_def demo_repr_def demo_round_def round_half_even_def digit_char_def)

lemma demo_emit: "emit demo_env demo_lib demo_objects = [define_cmd demo_env ''Cube'' 1 [(0, 0), (4, 0), (0, 4), (0, 0)]]"
  by (simp add: emit_def demo_objects_def emit_loop_step demo_coords object_coords_few del: emit_loop.simps(2))

lemma demo_cmd0:
  "define_cmd demo_env ''Cube'' 0 [(0, 0), (4, 0), (0, 4), (0, 0)] =
   ''EXCLUDE_OBJECT_DEFINE NAME='' @ [CHR 0x22] @ ''Cube'' @ [CHR 0x22] @
       '' CENTER=1.0,1.0 POLYGON=[[0.0,0.0],[4.0,0.0],[0.0,4.0],[0.0,0.0]]'' @ [CHR 0x0A]"
  by (simp add: define_cmd_def unique_name_def center_x_def center_y_def py_sum_def polygon_str_def
     demo_env_def demo_repr_def demo_round_def round_half_even_def digit_char_def)

subsection \<open>Copy numbers\<close>

text \<open>
  C1, as the code has it. The copy number of an object is the number of objects with the
  same name that come before it in \<open>objects\<close>, whether they were emitted or skipped: the
  last object of a list adds nothing when it is skipped and otherwise adds one command
  that carries its name and that number, after the commands of the objects before it.
\<close>

theorem copy_number_counts_earlier_objects:
  "emit env lib [] = [] \<and>
   emit env lib (objs @ [(k, d)]) =
     emit env lib objs @
       (case object_coords lib (obj_points d) of
          None \<Rightarrow> []
        | Some coords \<Rightarrow> [define_cmd env (obj_name d) (same_name_count (obj_name d) objs) coords])"
  by (simp add: emit_snoc emit_def[of env lib "[]"])

text \<open>
  Two objects named \<open>Cube\<close> with three points each are emitted as \<open>Cube\<close> and
  \<open>Cube_copy1\<close>, in this order.
\<close>

theorem copy_number_counts_earlier_objects_witness:
  "emit demo_env demo_lib
     ([(1, \<lparr>obj_name = ''Cube'', obj_points = [(0, 0), (4, 0), (0, 4)], obj_center = None\<rparr>)] @
      [(2, \<lparr>obj_name = ''Cube'', obj_points = [(0, 0), (4, 0), (0, 4)], obj_center = None\<rparr>)]) =
   [''EXCLUDE_OBJECT_DEFINE NAME='' @ [CHR 0x22] @ ''Cube'' @ [CHR 0x22] @
       '' CENTER=1.0,1.0 POLYGON=[[0.0,0.0],[4.0,0.0],[0.0,4.0],[0.0,0.0]]'' @ [CHR 0x0A],
    ''EXCLUDE_OBJECT_DEFINE NAME='' @ [CHR 0x22] @ ''Cube_copy1'' @ [CHR 0x22] @
       '' CENTER=1.0,1.0 POLYGON=[[0.0,0.0],[4.0,0.0],[0.0,4.0],[0.0,0.0]]'' @ [CHR 0x0A]]"
proof -
  have first: "emit demo_env demo_lib
      [(1, \<lparr>obj_name = ''Cube'', obj_points = [(0, 0), (4, 0), (0, 4)], obj_center = None\<rparr>)] =
      [define_cmd demo_env ''Cube'' 0 [(0, 0), (4, 0), (0, 4), (0, 0)]]"
    by (simp add: emit_def emit_loop_step demo_coords del: emit_loop.simps(2))
  show ?thesis
    using copy_number_counts_earlier_objects[of demo_env demo_lib
        "[(1, \<lparr>obj_name = ''Cube'', obj_points = [(0, 0), (4, 0), (0, 4)], obj_center = None\<rparr>)]"
        2 "\<lparr>obj_name = ''Cube'', obj_points = [(0, 0), (4, 0), (0, 4)], obj_center = None\<rparr>"]
    by (simp add: first demo_coords demo_cmd demo_cmd0 same_name_count_def)
qed

text \<open>
  In the example stream the first \<open>Cube\<close> has no point and is skipped, and the second
  is emitted as \<open>Cube_copy1\<close>, although no command of that name was emitted before it.
\<close>

theorem copy_number_counterexample:
  "objects (scan demo_env demo_lines) = demo_objects \<and>
   emit demo_env demo_lib (take 1 demo_objects) = [] \<and>
   emit demo_env demo_lib demo_objects =
     [''EXCLUDE_OBJECT_DEFINE NAME='' @ [CHR 0x22] @ ''Cube_copy1'' @ [CHR 0x22] @
        '' CENTER=1.0,1.0 POLYGON=[[0.0,0.0],[4.0,0.0],[0.0,4.0],[0.0,0.0]]'' @ [CHR 0x0A]]"
proof -
  have "emit demo_env demo_lib (take 1 demo_objects) = []"
    by (simp add: emit_def demo_objects_def emit_loop_step object_coords_few
        del: emit_loop.simps(2))
  then show ?thesis
    by (simp add: scan_demo_lines demo_emit demo_cmd)
qed

subsection \<open>The anchor and the output of the example stream\<close>

lemma demo_anchor: "anchor demo_env demo_lines = 4"
  by (simp add: anchor_def scan_demo_lines)

theorem anchor_is_first_command_line_witness:
  "anchor demo_env demo_lines = 4 \<and>
   map (\<lambda>l. is_anchor_line (strip l)) demo_lines = [False, False, False, False, True, True, True] \<and>
   anchor demo_env [] = 0"
proof -
  let ?P = "\<lambda>l. is_anchor_line (strip l)"
  have flags: "map ?P demo_lines = [False, False, False, False, True, True, True]"
    by (simp add: demo_lines_def eval_defs)
  have len: "length demo_lines = 7" by (simp add: demo_lines_def)
  have nth: "?P (demo_lines ! j) = ([False, False, False, False, True, True, True] ! j)"
    if "j < 7" for j
    using nth_map[of j demo_lines ?P] that len unfolding flags by simp
  have at4: "?P (demo_lines ! 4)" using nth[of 4] by simp
  have before: "\<not> ?P (demo_lines ! j)" if "j < 4" for j
  proof -
    from that have "j = 0 \<or> j = 1 \<or> j = 2 \<or> j = 3" by arith
    then show ?thesis using nth[of j] by auto
  qed
  from anchor_is_first_command_line[of demo_lines demo_env]
  consider i where "i < length demo_lines" "?P (demo_lines ! i)"
      "\<forall>j<i. \<not> ?P (demo_lines ! j)" "anchor demo_env demo_lines = i"
    | "\<forall>l\<in>set demo_lines. \<not> ?P l" by blast
  then have "anchor demo_env demo_lines = 4"
  proof cases
    case 1
    have "\<not> i < 4" using before 1(2) by blast
    moreover have "\<not> 4 < i" using 1(3) at4 by blast
    ultimately show ?thesis using 1(4) by simp
  next
    case 2
    have "demo_lines ! 4 \<in> set demo_lines" using len by simp
    with 2 at4 show ?thesis by blast
  qed
  moreover have "anchor demo_env [] = 0"
    using anchor_is_first_command_line[of "[]" demo_env] by simp
  ultimately show ?thesis using flags by blast
qed

theorem main_passes_lines_through_witness:
  "main demo_env demo_lib demo_lines =
     take 4 demo_lines @
     [marker_line,
      ''EXCLUDE_OBJECT_DEFINE NAME='' @ [CHR 0x22] @ ''Cube_copy1'' @ [CHR 0x22] @
        '' CENTER=1.0,1.0 POLYGON=[[0.0,0.0],[4.0,0.0],[0.0,4.0],[0.0,0.0]]'' @ [CHR 0x0A],
      [CHR 0x0A]] @
     drop 4 demo_lines"
  using main_passes_lines_through[of demo_env demo_lib demo_lines]
  by (simp add: scan_demo_lines demo_emit demo_cmd demo_anchor)

subsection \<open>Centroid and ring of an emitted command\<close>

text \<open>The commands of a prefix of the objects are a prefix of the commands.\<close>

lemma emit_loop_acc:
  "emit_loop env lib nc cmds objs = cmds @ emit_loop env lib nc [] objs"
proof (induction objs arbitrary: nc cmds)
  case Nil
  show ?case by simp
next
  case (Cons e objs)
  obtain k d where e: "e = (k, d)" by (cases e)
  let ?nc = "nc(obj_name d := nc (obj_name d) + 1)"
  let ?new = "case object_coords lib (obj_points d) of
                None \<Rightarrow> []
              | Some coords \<Rightarrow> [define_cmd env (obj_name d) (nc (obj_name d)) coords]"
  have "emit_loop env lib nc cmds (e # objs) = (cmds @ ?new) @ emit_loop env lib ?nc [] objs"
    unfolding e emit_loop_step by (rule Cons.IH)
  moreover have "emit_loop env lib nc [] (e # objs) = ([] @ ?new) @ emit_loop env lib ?nc [] objs"
    unfolding e emit_loop_step by (rule Cons.IH)
  ultimately show ?case by simp
qed

lemma emit_loop_append:
  "\<exists>nc'. emit_loop env lib nc cmds (xs @ ys) = emit_loop env lib nc' (emit_loop env lib nc cmds xs) ys"
proof (induction xs arbitrary: nc cmds)
  case Nil
  show ?case by auto
next
  case (Cons e xs)
  obtain k d where e: "e = (k, d)" by (cases e)
  show ?case
    unfolding e append_Cons emit_loop_step by (rule Cons.IH)
qed

lemma emit_prefix: "\<exists>rest. emit env lib (xs @ ys) = emit env lib xs @ rest"
proof -
  from emit_loop_append[of env lib "\<lambda>nm. 0" "[]" xs ys] obtain nc' where
    "emit env lib (xs @ ys) = emit_loop env lib nc' (emit env lib xs) ys"
    unfolding emit_def by blast
  then have "emit env lib (xs @ ys) = emit env lib xs @ emit_loop env lib nc' [] ys"
    using emit_loop_acc[of env lib nc' "emit env lib xs" ys] by simp
  then show ?thesis by blast
qed

text \<open>
  C5. Take any object of the list \<open>objects\<close>, with the objects \<open>pre\<close> before it and \<open>post\<close>
  after it, that is finalized: it has at least 3 points, its hull \<open>h\<close> is built and not
  empty, the hull is simplified to \<open>h'\<close>, and \<open>h'\<close> has the non-empty list \<open>coords\<close> of
  exterior coordinates. Then the commands of the objects before it are followed by the
  command of this object, built from its own ring: as \<open>CENTER\<close> it carries the sum of
  all stored x coordinates (the additions start from zero and run from left to right)
  divided by the number of stored coordinates, and the same for y, each rounded to 3
  decimals; a closing vertex that the ring repeats is one of the stored coordinates and
  is counted. Every coordinate of the ring is printed rounded to 3 decimals, in the
  order of \<open>coords\<close>.
\<close>

theorem finalized_object_center_and_ring:
  assumes "3 \<le> length (obj_points d)"
      and "concave_hull lib (obj_points d) (1 / 2) = Inr h"
      and "\<not> is_empty h"
      and "simplify_polygon lib h 40 = Inr h'"
      and "exterior_coords h' = Inr coords"
      and "coords \<noteq> []"
  shows "take (Suc (length (emit env lib pre))) (emit env lib (pre @ (k, d) # post)) =
           emit env lib pre @
           [''EXCLUDE_OBJECT_DEFINE NAME='' @ [CHR 0x22] @
              unique_name (obj_name d) (same_name_count (obj_name d) pre) @
              [CHR 0x22] @ '' CENTER='' @
              py_repr env (py_round env
                 (py_div env (foldl (py_add env) (py_zero env) (map fst coords)) (length coords)) 3) @
              '','' @
              py_repr env (py_round env
                 (py_div env (foldl (py_add env) (py_zero env) (map snd coords)) (length coords)) 3) @
              '' POLYGON=[['' @
              join ''],[''
                (map (\<lambda>(x, y). py_repr env (py_round env x 3) @ '','' @ py_repr env (py_round env y 3))
                   coords) @
              '']]'' @ [CHR 0x0A]]"
proof -
  let ?cmd = "define_cmd env (obj_name d) (same_name_count (obj_name d) pre) coords"
  have oc: "object_coords lib (obj_points d) = Some coords"
    using assms by (simp add: object_coords_def)
  have upto: "emit env lib (pre @ [(k, d)]) = emit env lib pre @ [?cmd]"
    by (simp add: emit_snoc oc)
  from emit_prefix[of env lib "pre @ [(k, d)]" post] obtain rest where
    "emit env lib (pre @ (k, d) # post) = (emit env lib pre @ [?cmd]) @ rest"
    unfolding upto by auto
  then have "take (Suc (length (emit env lib pre))) (emit env lib (pre @ (k, d) # post)) =
               emit env lib pre @ [?cmd]"
    by simp
  then show ?thesis
    by (simp add: define_cmd_def center_x_def center_y_def py_sum_def polygon_str_def)
qed

text \<open>
  Two triangles named \<open>Cube\<close> before an object without points: the ring of the second
  triangle repeats its first vertex, and its centre 1.0, 1.0 is the mean of the four
  stored vertices.
\<close>

lemma demo_emit_first:
  "emit demo_env demo_lib
      [(1, \<lparr>obj_name = ''Cube'', obj_points = [(0, 0), (4, 0), (0, 4)], obj_center = None\<rparr>)] =
      [define_cmd demo_env ''Cube'' 0 [(0, 0), (4, 0), (0, 4), (0, 0)]]"
  by (simp add: emit_def emit_loop_step demo_coords del: emit_loop.simps(2))

lemma demo_ring_text:
  "''EXCLUDE_OBJECT_DEFINE NAME='' @ [CHR 0x22] @ ''Cube_copy1'' @
              [CHR 0x22] @ '' CENTER='' @
              py_repr demo_env (py_round demo_env
                 (py_div demo_env (foldl (py_add demo_env) (py_zero demo_env)
                    (map fst [(0, 0), (4, 0), (0, 4), (0, 0)])) (length [(0::rat, 0::rat), (4, 0), (0, 4), (0, 0)])) 3) @
              '','' @
              py_repr demo_env (py_round demo_env
                 (py_div demo_env (foldl (py_add demo_env) (py_zero demo_env)
                    (map snd [(0, 0), (4, 0), (0, 4), (0, 0)])) (length [(0::rat, 0::rat), (4, 0), (0, 4), (0, 0)])) 3) @
              '' POLYGON=[['' @
              join ''],[''
                (map (\<lambda>(x, y). py_repr demo_env (py_round demo_env x 3) @ '','' @
                                 py_repr demo_env (py_round demo_env y 3))
                   [(0, 0), (4, 0), (0, 4), (0, 0)]) @
              '']]'' @ [CHR 0x0A] =
   ''EXCLUDE_OBJECT_DEFINE NAME='' @ [CHR 0x22] @ ''Cube_copy1'' @ [CHR 0x22] @
          '' CENTER=1.0,1.0 POLYGON=[[0.0,0.0],[4.0,0.0],[0.0,4.0],[0.0,0.0]]'' @ [CHR 0x0A]"
  by (simp add: demo_env_def demo_repr_def demo_round_def round_half_even_def digit_char_def)

theorem finalized_object_center_and_ring_witness:
  "take 2 (emit demo_env demo_lib
     ([(1, \<lparr>obj_name = ''Cube'', obj_points = [(0, 0), (4, 0), (0, 4)], obj_center = None\<rparr>)] @
      (2, \<lparr>obj_name = ''Cube'', obj_points = [(0, 0), (4, 0), (0, 4)], obj_center = None\<rparr>) #
      [(3, \<lparr>obj_name = ''Ball'', obj_points = [], obj_center = None\<rparr>)])) =
   [''EXCLUDE_OBJECT_DEFINE NAME='' @ [CHR 0x22] @ ''Cube'' @ [CHR 0x22] @
       '' CENTER=1.0,1.0 POLYGON=[[0.0,0.0],[4.0,0.0],[0.0,4.0],[0.0,0.0]]'' @ [CHR 0x0A],
    ''EXCLUDE_OBJECT_DEFINE NAME='' @ [CHR 0x22] @ ''Cube_copy1'' @ [CHR 0x22] @
       '' CENTER=1.0,1.0 POLYGON=[[0.0,0.0],[4.0,0.0],[0.0,4.0],[0.0,0.0]]'' @ [CHR 0x0A]]"
proof -
  let ?d = "\<lparr>obj_name = ''Cube'', obj_points = [(0::rat, 0::rat), (4, 0), (0, 4)], obj_center = None\<rparr>"
  let ?ring = "[(0::rat, 0::rat), (4, 0), (0, 4), (0, 0)]"
  have hull: "concave_hull demo_lib (obj_points ?d) (1 / 2) = Inr (Polygon ?ring)"
    by (simp add: concave_hull_def demo_lib_def demo_convex_hull_def)
  have simp40: "simplify_polygon demo_lib (Polygon ?ring) 40 = Inr (Polygon ?ring)"
    by (simp add: simplify_polygon_def simplify_polygon_trace_def simplify_loop.simps demo_lib_def)
  have name: "unique_name (obj_name ?d) (same_name_count (obj_name ?d) [(1, ?d)]) = ''Cube_copy1''"
    by (simp add: unique_name_def same_name_count_def digit_char_def)
  from finalized_object_center_and_ring[of ?d demo_lib "Polygon ?ring" "Polygon ?ring" ?ring
      demo_env "[(1, ?d)]" 2 "[(3, \<lparr>obj_name = ''Ball'', obj_points = [], obj_center = None\<rparr>)]",
      OF _ hull _ simp40]
  show ?thesis
    unfolding name demo_ring_text demo_emit_first demo_cmd0
    by (simp add: numeral_2_eq_2)
qed

text \<open>
  In the other direction, every emitted command is the command of some object of the
  list that is finalized.
\<close>

lemma emitted_command_origin:
  assumes "cmd \<in> set (emit env lib objs)"
  shows "\<exists>k d copy_number h h' coords.
           (k, d) \<in> set objs \<and>
           concave_hull lib (obj_points d) (1 / 2) = Inr h \<and>
           simplify_polygon lib h 40 = Inr h' \<and>
           exterior_coords h' = Inr coords \<and> coords \<noteq> [] \<and>
           cmd = ''EXCLUDE_OBJECT_DEFINE NAME='' @ [CHR 0x22] @ unique_name (obj_name d) copy_number @
                 [CHR 0x22] @ '' CENTER='' @
                 py_repr env (py_round env
                    (py_div env (foldl (py_add env) (py_zero env) (map fst coords)) (length coords)) 3) @
                 '','' @
                 py_repr env (py_round env
                    (py_div env (foldl (py_add env) (py_zero env) (map snd coords)) (length coords)) 3) @
                 '' POLYGON=[['' @
                 join ''],[''
                   (map (\<lambda>(x, y). py_repr env (py_round env x 3) @ '','' @ py_repr env (py_round env y 3))
                      coords) @
                 '']]'' @ [CHR 0x0A]"
proof -
  from emit_member[OF assms] obtain k d copy_number coords where
    mem: "(k, d) \<in> set objs" and
    oc: "object_coords lib (obj_points d) = Some coords" and
    cmd: "cmd = define_cmd env (obj_name d) copy_number coords"
    by blast
  from object_coords_Some[OF oc] obtain h h' where
    hull: "concave_hull lib (obj_points d) (1 / 2) = Inr h"
      "simplify_polygon lib h 40 = Inr h'" "exterior_coords h' = Inr coords" "coords \<noteq> []"
    by blast
  have "cmd = ''EXCLUDE_OBJECT_DEFINE NAME='' @ [CHR 0x22] @ unique_name (obj_name d) copy_number @
                 [CHR 0x22] @ '' CENTER='' @
                 py_repr env (py_round env
                    (py_div env (foldl (py_add env) (py_zero env) (map fst coords)) (length coords)) 3) @
                 '','' @
                 py_repr env (py_round env
                    (py_div env (foldl (py_add env) (py_zero env) (map snd coords)) (length coords)) 3) @
                 '' POLYGON=[['' @
                 join ''],[''
                   (map (\<lambda>(x, y). py_repr env (py_round env x 3) @ '','' @ py_repr env (py_round env y 3))
                      coords) @
                 '']]'' @ [CHR 0x0A]"
    unfolding cmd by (simp add: define_cmd_def center_x_def center_y_def py_sum_def polygon_str_def)
  with mem hull show ?thesis by blast
qed

text \<open>
  With exact arithmetic the centre is the arithmetic mean of the stored coordinates, and
  on a ring that repeats its first vertex at the end that vertex has weight two.
\<close>

lemma foldl_add_sum_list: "foldl (+) (a::rat) xs = a + sum_list xs"
  by (induction xs arbitrary: a) (simp_all add: add.assoc)

lemma demo_center_is_mean:
  "center_x demo_env coords = sum_list (map fst coords) / of_nat (length coords) \<and>
   center_y demo_env coords = sum_list (map snd coords) / of_nat (length coords)"
  by (simp add: center_x_def center_y_def py_sum_def demo_env_def foldl_add_sum_list)

lemma demo_center_closed_ring:
  "center_x demo_env (v # vs @ [v]) = (2 * fst v + sum_list (map fst vs)) / of_nat (length vs + 2)"
  by (simp add: demo_center_is_mean)

subsection \<open>Which objects are skipped\<close>

lemma object_coords_via_hull:
  "object_coords lib pts =
     (if length pts < 3 then None else ring_of_hull lib (concave_hull lib pts (1 / 2)))"
  by (simp add: object_coords_def ring_of_hull_def split: sum.splits)

lemma max_by_fold_member:
  "foldl (\<lambda>best y. if key best < key y then y else best) x xs \<in> set (x # xs)"
  by (induction xs arbitrary: x) auto

lemma max_by_member: "max_by key xs = Some g \<Longrightarrow> g \<in> set xs"
  using max_by_fold_member[of key] by (cases xs) auto

lemma max_by_Some: "xs \<noteq> [] \<Longrightarrow> \<exists>g. max_by key xs = Some g"
  by (cases xs) auto

lemma simplify_polygon_nonempty:
  assumes A3: "\<forall>cs tol. cs \<noteq> [] \<longrightarrow> (\<exists>cs'. simplify lib (Polygon cs) tol = Inr (Polygon cs') \<and> cs' \<noteq> [])"
      and ne: "cs \<noteq> []"
  shows "\<exists>r. simplify_polygon lib (Polygon cs) m = Inr (Polygon r) \<and> r \<noteq> []"
proof -
  have contract: "\<exists>cs'. simplify lib (Polygon cs) tol = Inr (Polygon cs')" for tol
    using A3 ne by blast
  from contract[of "1 / 10"] obtain cs0 where
    s0: "simplify lib (Polygon cs) (1 / 10) = Inr (Polygon cs0)" by blast
  from simplify_loop_spec[of lib "Polygon cs" "1 / 10" "Polygon cs0" m, OF contract s0]
  obtain r t where
    res: "simplify_loop lib (Polygon cs) m (1 / 10) (Polygon cs0) = Inr (Polygon r, t)"
    and fin: "simplify lib (Polygon cs) t = Inr (Polygon r)"
    by blast
  from A3 ne fin have "r \<noteq> []" by (metis Inr_inject geom.inject(1))
  moreover have "simplify_polygon lib (Polygon cs) m = Inr (Polygon r)"
    by (simp add: simplify_polygon_def simplify_polygon_trace_def s0 res)
  ultimately show ?thesis by blast
qed

lemma ring_of_hull_None:
  assumes A3: "\<forall>cs tol. cs \<noteq> [] \<longrightarrow> (\<exists>cs'. simplify lib (Polygon cs) tol = Inr (Polygon cs') \<and> cs' \<noteq> [])"
  shows "ring_of_hull lib r = None \<longleftrightarrow> (case r of Inr (Polygon cs) \<Rightarrow> cs = [] | _ \<Rightarrow> True)"
proof (cases r)
  case (Inl e)
  then show ?thesis by (simp add: ring_of_hull_def)
next
  case (Inr h)
  show ?thesis
  proof (cases h)
    case (Polygon cs)
    show ?thesis
    proof (cases "cs = []")
      case True
      then show ?thesis by (simp add: ring_of_hull_def Inr Polygon)
    next
      case False
      from simplify_polygon_nonempty[OF A3 False, of 40] obtain r' where
        "simplify_polygon lib (Polygon cs) 40 = Inr (Polygon r')" "r' \<noteq> []" by blast
      then show ?thesis using False by (simp add: ring_of_hull_def Inr Polygon)
    qed
  next
    case (MultiPolygon gs)
    then show ?thesis
      by (simp add: ring_of_hull_def Inr simplify_polygon_def simplify_polygon_trace_def)
  next
    case (OtherGeom t e)
    then show ?thesis
      by (simp add: ring_of_hull_def Inr simplify_polygon_def simplify_polygon_trace_def)
  qed
qed

lemma concave_hull_when_fails:
  "concave_hull_fails lib pts \<Longrightarrow> concave_hull lib pts (1 / 2) = convex_hull lib pts"
  by (auto simp add: concave_hull_fails_def concave_hull_def concave_hull_try_def
      split: sum.splits geom.splits)

lemma concave_hull_when_succeeds:
  assumes A1: "\<forall>pts cs. alphashape lib pts (1 / 2) = Inr (Polygon cs) \<longrightarrow> cs \<noteq> []"
      and A2: "\<forall>pts gs. alphashape lib pts (1 / 2) = Inr (MultiPolygon gs) \<longrightarrow> [] \<notin> set gs"
      and ok: "\<not> concave_hull_fails lib pts"
  shows "\<exists>cs. concave_hull lib pts (1 / 2) = Inr (Polygon cs) \<and> cs \<noteq> []"
proof -
  from ok have len: "\<not> length pts < 4" by (simp add: concave_hull_fails_def)
  from ok consider cs where "alphashape lib pts (1 / 2) = Inr (Polygon cs)"
    | gs where "alphashape lib pts (1 / 2) = Inr (MultiPolygon gs)" "gs \<noteq> []"
    by (auto simp add: concave_hull_fails_def split: sum.splits geom.splits)
  then show ?thesis
  proof cases
    case 1
    with A1 len show ?thesis
      by (simp add: concave_hull_def concave_hull_try_def)
  next
    case 2
    from max_by_Some[OF 2(2), of "area lib"] obtain g where g: "max_by (area lib) gs = Some g"
      by blast
    from max_by_member[OF g] A2 2(1) have "g \<noteq> []" by auto
    with 2 g len show ?thesis
      by (simp add: concave_hull_def concave_hull_try_def)
  qed
qed

lemma object_coords_None_iff:
  assumes A1: "\<forall>pts cs. alphashape lib pts (1 / 2) = Inr (Polygon cs) \<longrightarrow> cs \<noteq> []"
      and A2: "\<forall>pts gs. alphashape lib pts (1 / 2) = Inr (MultiPolygon gs) \<longrightarrow> [] \<notin> set gs"
      and A3: "\<forall>cs tol. cs \<noteq> [] \<longrightarrow> (\<exists>cs'. simplify lib (Polygon cs) tol = Inr (Polygon cs') \<and> cs' \<noteq> [])"
  shows "object_coords lib pts = None \<longleftrightarrow> omitted lib pts"
proof (cases "length pts < 3")
  case True
  then show ?thesis by (simp add: object_coords_via_hull omitted_def)
next
  case False
  show ?thesis
  proof (cases "concave_hull_fails lib pts")
    case True
    have "ring_of_hull lib (convex_hull lib pts) = None \<longleftrightarrow> convex_hull_fails lib pts"
      by (simp add: ring_of_hull_None[OF A3] convex_hull_fails_def split: sum.splits geom.splits)
    with True False show ?thesis
      by (simp add: object_coords_via_hull omitted_def concave_hull_when_fails)
  next
    case ok: False
    from concave_hull_when_succeeds[OF A1 A2 ok] obtain cs where
      "concave_hull lib pts (1 / 2) = Inr (Polygon cs)" "cs \<noteq> []" by blast
    with False ok show ?thesis
      by (simp add: object_coords_via_hull omitted_def ring_of_hull_None[OF A3])
  qed
qed

lemma process_object_Defined_iff:
  "(\<exists>cmd. process_object env lib nm k pts = Defined cmd) \<longleftrightarrow> object_coords lib pts \<noteq> None"
proof (cases "object_coords lib pts")
  case None
  with process_object_skipped[OF None, of env nm k] show ?thesis by simp
next
  case (Some coords)
  with process_object_Defined[OF Some, of env nm k] show ?thesis by simp
qed

lemma length_emit:
  "length (emit env lib objs) =
     length (filter (\<lambda>e. object_coords lib (obj_points (snd e)) \<noteq> None) objs)"
proof (induction objs rule: rev_induct)
  case Nil
  show ?case by (simp add: emit_def)
next
  case (snoc e objs)
  obtain k d where e: "e = (k, d)" by (cases e)
  show ?case
    unfolding e emit_snoc
    by (cases "object_coords lib (obj_points d)") (simp_all add: snoc.IH)
qed

lemma add_point_keys: "map fst (add_point k p objs) = map fst objs"
  by (induction objs) (auto simp add: add_point_def)

lemma scan_line_distinct:
  assumes "distinct (map fst (objects st))"
  shows "distinct (map fst (objects (scan_line env st line)))"
proof -
  have so: "distinct (map fst (objects (start_object env s ls)))"
    if "distinct (map fst (objects s))" for s :: "'a scan_state" and ls
    using that by (auto simp add: start_object_def Let_def split: option.splits)
  have co: "distinct (map fst (objects (collect env s ls)))"
    if "distinct (map fst (objects s))" for s :: "'a scan_state" and ls
    using that by (auto simp add: collect_def add_point_keys split: option.splits prod.splits)
  show ?thesis
    using assms by (auto simp add: scan_line_def Let_def intro!: so co)
qed

lemma scan_distinct: "distinct (map fst (objects (scan env lines)))"
proof -
  have "distinct (map fst (objects (foldl (scan_line env) st lines)))"
    if "distinct (map fst (objects st))" for st
    using that by (induction lines arbitrary: st) (simp_all add: scan_line_distinct)
  then show ?thesis by (simp add: scan_def init_state_def)
qed

text \<open>
  C4. Take a library in which \<open>alphashape\<close> returns no empty \<open>Polygon\<close> and no
  \<open>MultiPolygon\<close> with an empty member, and \<open>simplify\<close> maps a non-empty \<open>Polygon\<close> to a
  non-empty \<open>Polygon\<close>. Then the loop over the objects emits at most one command per
  object, so at most as many commands as there are object ids; the body emits a command
  for a set of points exactly when the set is not omitted, that is, when it has at least
  3 points and the concave or the convex hull construction succeeds; and the number of
  commands is the number of objects that are not omitted, so that a skipped object never
  keeps a later object from being emitted.
\<close>

theorem emitted_iff_not_omitted:
  assumes A1: "\<And>pts cs. alphashape lib pts (1 / 2) = Inr (Polygon cs) \<Longrightarrow> cs \<noteq> []"
      and A2: "\<And>pts gs. alphashape lib pts (1 / 2) = Inr (MultiPolygon gs) \<Longrightarrow> [] \<notin> set gs"
      and A3: "\<And>cs tol. cs \<noteq> [] \<Longrightarrow> \<exists>cs'. simplify lib (Polygon cs) tol = Inr (Polygon cs') \<and> cs' \<noteq> []"
  shows "length (emit env lib (objects (scan env lines)))
           \<le> card (fst ` set (objects (scan env lines))) \<and>
         length (emit env lib objs) \<le> length objs \<and>
         length (emit env lib objs) = length (filter (\<lambda>e. \<not> omitted lib (obj_points (snd e))) objs) \<and>
         (\<forall>nm k pts. (\<exists>cmd. process_object env lib nm k pts = Defined cmd) \<longleftrightarrow> \<not> omitted lib pts)"
proof -
  have "\<forall>pts cs. alphashape lib pts (1 / 2) = Inr (Polygon cs) \<longrightarrow> cs \<noteq> []"
    using A1 by blast
  moreover have "\<forall>pts gs. alphashape lib pts (1 / 2) = Inr (MultiPolygon gs) \<longrightarrow> [] \<notin> set gs"
    using A2 by blast
  moreover have "\<forall>cs tol. cs \<noteq> [] \<longrightarrow>
      (\<exists>cs'. simplify lib (Polygon cs) tol = Inr (Polygon cs') \<and> cs' \<noteq> [])"
    using A3 by blast
  ultimately have iff: "object_coords lib pts = None \<longleftrightarrow> omitted lib pts" for pts
    by (rule object_coords_None_iff)
  have le: "length (emit env lib xs) \<le> length xs" for xs
    by (simp add: length_emit)
  have "card (fst ` set (objects (scan env lines))) = length (objects (scan env lines))"
    using distinct_card[OF scan_distinct[of env lines]] by simp
  then have first: "length (emit env lib (objects (scan env lines)))
           \<le> card (fst ` set (objects (scan env lines)))"
    using le[of "objects (scan env lines)"] by simp
  have count: "length (emit env lib objs) =
      length (filter (\<lambda>e. \<not> omitted lib (obj_points (snd e))) objs)"
    by (simp add: length_emit iff)
  have each: "\<forall>nm k pts. (\<exists>cmd. process_object env lib nm k pts = Defined cmd) \<longleftrightarrow> \<not> omitted lib pts"
    by (simp add: process_object_Defined_iff iff)
  from first le[of objs] count each show ?thesis by blast
qed

text \<open>
  In the example stream the object without points is omitted and the triangle is not;
  three collinear points are omitted, since the convex hull is a \<open>LineString\<close>.
\<close>

theorem emitted_iff_not_omitted_witness:
  "length (emit demo_env demo_lib (objects (scan demo_env demo_lines)))
     \<le> card (fst ` set (objects (scan demo_env demo_lines))) \<and>
   length (emit demo_env demo_lib demo_objects) \<le> length demo_objects \<and>
   length (emit demo_env demo_lib demo_objects) =
     length (filter (\<lambda>e. \<not> omitted demo_lib (obj_points (snd e))) demo_objects) \<and>
   (\<forall>nm k pts. (\<exists>cmd. process_object demo_env demo_lib nm k pts = Defined cmd) \<longleftrightarrow>
       \<not> omitted demo_lib pts) \<and>
   omitted demo_lib [] \<and> \<not> omitted demo_lib [(0, 0), (4, 0), (0, 4)] \<and>
   omitted demo_lib [(0, 0), (1, 1), (2, 2)]"
proof -
  have "omitted demo_lib [] \<and> \<not> omitted demo_lib [(0, 0), (4, 0), (0, 4)] \<and>
        omitted demo_lib [(0, 0), (1, 1), (2, 2)]"
    by (simp add: omitted_def concave_hull_fails_def convex_hull_fails_def demo_lib_def
        demo_convex_hull_def)
  moreover have "length (emit demo_env demo_lib (objects (scan demo_env demo_lines)))
     \<le> card (fst ` set (objects (scan demo_env demo_lines))) \<and>
   length (emit demo_env demo_lib demo_objects) \<le> length demo_objects \<and>
   length (emit demo_env demo_lib demo_objects) =
     length (filter (\<lambda>e. \<not> omitted demo_lib (obj_points (snd e))) demo_objects) \<and>
   (\<forall>nm k pts. (\<exists>cmd. process_object demo_env demo_lib nm k pts = Defined cmd) \<longleftrightarrow>
       \<not> omitted demo_lib pts)"
    by (rule emitted_iff_not_omitted) (simp_all add: demo_lib_def)
  ultimately show ?thesis by blast
qed

end
